theory Spec2Isabelle
  imports Complex_Main
begin

section \<open>The transpose test bench: data model\<close>

text \<open>
  The source is the cocotb test \<^verbatim>\<open>test_transpose_00\<close> of
  \<^verbatim>\<open>gateware/sim/transpose/tb_transpose.py\<close>. It drives a pitch shifter (the module
  under test, which is not part of the source) and watches its output for jumps.

  The module under test is a black box here: what the test reads from it after the
  \<open>n\<close>-th rising edge of \<^verbatim>\<open>sample_clk\<close> is \<open>dut n\<close>, an arbitrary stream of signal
  values. Every signal is taken to hold a resolved value (an integer), so that the
  conversions \<^verbatim>\<open>int(dut.env0)\<close> never raise.
\<close>

datatype error = AssertionError

record dut_signals =
  sample_out :: int
  delay_out0 :: int
  env0 :: int
  delay_out1 :: int
  env1 :: int

text \<open>The lines the test prints, in order.\<close>

datatype line =
    PrintIn nat int
  | PrintOut nat int
  | PrintDel0 int
  | PrintEnv0 int
  | PrintDel1 int
  | PrintEnv1 int
  | PrintFound
  | PrintSeparator

text \<open>
  The state of the test: the values last assigned to the two inputs of the module, the
  number of rising edges awaited so far, the two local variables of the stimulus loop and
  the printed lines.
\<close>

record harness =
  sample_in :: int
  pitch :: int
  edges :: nat
  data_out_last :: "int option"
  breaknext :: bool
  stdout :: "line list"

type_synonym outcome = "(error \<times> harness) + harness"

section \<open>Helpers\<close>

text \<open>
  Modelled from the spec: \<^verbatim>\<open>bits_from_signed\<close> and \<^verbatim>\<open>signed_from_bits\<close> are imported
  from \<^verbatim>\<open>util.i2s\<close>, which is not part of the source. The spec calls a sample a
  fixed-width signed integer; the two helpers are modelled as the two's-complement
  encoding of a signed integer in \<open>width\<close> bits and its inverse.
\<close>

definition bits_from_signed :: "int \<Rightarrow> nat \<Rightarrow> int" where
  "bits_from_signed v width = v mod 2 ^ width"

definition signed_from_bits :: "int \<Rightarrow> nat \<Rightarrow> int" where
  "signed_from_bits b width =
     (let u = b mod 2 ^ width in if u < 2 ^ (width - 1) then u else u - 2 ^ width)"

text \<open>
  Python's \<^verbatim>\<open>int\<close> of a float truncates toward zero. The floats of the source
  (\<^verbatim>\<open>i / 100\<close>, \<^verbatim>\<open>math.sin\<close>, the product with 1000) are modelled as real numbers.
\<close>

definition py_int :: "real \<Rightarrow> int" where
  "py_int x = (if 0 \<le> x then \<lfloor>x\<rfloor> else \<lceil>x\<rceil>)"

definition sample_width :: nat where
  "sample_width = 16"

definition data_in :: "nat \<Rightarrow> int" where
  "data_in i = py_int (1000 * sin (real i / 100))"

section \<open>The test\<close>

text \<open>\<^verbatim>\<open>await RisingEdge(dut.sample_clk)\<close>\<close>

definition rising_edge :: "harness \<Rightarrow> harness" where
  "rising_edge s = s\<lparr>edges := Suc (edges s)\<rparr>"

text \<open>
  Lines 26 and 27: both inputs are assigned. The two loop variables are not bound yet;
  the record holds their later initial values from the start.
\<close>

definition start_of_test :: harness where
  "start_of_test = \<lparr>sample_in = 0, pitch = 5000 * 4, edges = 0,
                    data_out_last = None, breaknext = False, stdout = []\<rparr>"

text \<open>Lines 31 and 32: \<^verbatim>\<open>for i in range(n): await RisingEdge(dut.sample_clk)\<close>\<close>

fun warm_up :: "nat \<Rightarrow> harness \<Rightarrow> harness" where
  "warm_up 0 s = s"
| "warm_up (Suc n) s = warm_up n (rising_edge s)"

text \<open>Lines 37 and 38, after the 1024 edges of the warm-up.\<close>

definition stimulus_start :: harness where
  "stimulus_start = (warm_up 1024 start_of_test)\<lparr>data_out_last := None, breaknext := False\<rparr>"

text \<open>
  Lines 41 to 67: one iteration of the stimulus loop. The \<^verbatim>\<open>break\<close> after the failing
  assertion is never reached.
\<close>

definition body :: "(nat \<Rightarrow> dut_signals) \<Rightarrow> nat \<Rightarrow> harness \<Rightarrow> outcome" where
  "body dut i s0 =
     (let s1 = rising_edge s0;
          d = data_in i;
          s2 = s1\<lparr>sample_in := bits_from_signed d sample_width\<rparr>;
          sig = dut (edges s2);
          data_out = signed_from_bits (sample_out sig) sample_width;
          s3 = s2\<lparr>stdout := stdout s2 @ [PrintIn i d, PrintOut i data_out]\<rparr>
      in case data_out_last s3 of
           None \<Rightarrow> Inr (s3\<lparr>data_out_last := Some data_out\<rparr>)
         | Some prev \<Rightarrow>
             (let s4 = s3\<lparr>stdout := stdout s3 @
                          [PrintDel0 (delay_out0 sig), PrintEnv0 (env0 sig),
                           PrintDel1 (delay_out1 sig), PrintEnv1 (env1 sig)]\<rparr>
              in if breaknext s4
                 then Inl (AssertionError, s4\<lparr>stdout := stdout s4 @ [PrintFound]\<rparr>)
                 else if \<bar>data_out - prev\<bar> > 50
                 then Inr (s4\<lparr>stdout := stdout s4 @ [PrintSeparator],
                              breaknext := True, data_out_last := Some data_out\<rparr>)
                 else Inr (s4\<lparr>data_out_last := Some data_out\<rparr>)))"

text \<open>The loop over a range of indices; a raised assertion ends it.\<close>

fun stimulus :: "(nat \<Rightarrow> dut_signals) \<Rightarrow> nat list \<Rightarrow> harness \<Rightarrow> outcome" where
  "stimulus dut [] s = Inr s"
| "stimulus dut (i # is) s =
     (case body dut i s of Inl e \<Rightarrow> Inl e | Inr s' \<Rightarrow> stimulus dut is s')"

text \<open>The test up to and including the first \<open>n\<close> iterations of the stimulus loop.\<close>

definition run_stimulus :: "(nat \<Rightarrow> dut_signals) \<Rightarrow> nat \<Rightarrow> outcome" where
  "run_stimulus dut n = stimulus dut [0..<n] stimulus_start"

definition test_transpose_00 :: "(nat \<Rightarrow> dut_signals) \<Rightarrow> outcome" where
  "test_transpose_00 dut = run_stimulus dut 2048"

text \<open>The state in which a run ended, whether it passed or raised.\<close>

fun final_state :: "outcome \<Rightarrow> harness" where
  "final_state (Inl (e, s)) = s"
| "final_state (Inr s) = s"

text \<open>The decoded output sample that iteration \<open>i\<close> of the stimulus loop reads.\<close>

definition data_out_at :: "(nat \<Rightarrow> dut_signals) \<Rightarrow> nat \<Rightarrow> int" where
  "data_out_at dut i = signed_from_bits (sample_out (dut (1025 + i))) sample_width"

text \<open>The comparison of line 60 at iteration \<open>i\<close>, for \<open>i \<ge> 1\<close>.\<close>

definition discontinuity :: "(nat \<Rightarrow> dut_signals) \<Rightarrow> nat \<Rightarrow> bool" where
  "discontinuity dut i = (\<bar>data_out_at dut i - data_out_at dut (i - 1)\<bar> > 50)"

text \<open>
  Concrete output streams: \<open>quiet_dut\<close> is silent; \<open>step_dut k h\<close> reads 0 before stimulus
  iteration \<open>k\<close> and \<open>h\<close> from iteration \<open>k\<close> on; \<open>warm_up_noise_dut\<close> is loud
  during the warm-up and silent afterwards.
\<close>

definition quiet_dut :: "nat \<Rightarrow> dut_signals" where
  "quiet_dut n = \<lparr>sample_out = 0, delay_out0 = 0, env0 = 0, delay_out1 = 0, env1 = 0\<rparr>"

definition step_dut :: "nat \<Rightarrow> int \<Rightarrow> nat \<Rightarrow> dut_signals" where
  "step_dut k h n = \<lparr>sample_out = (if n < 1025 + k then 0 else h),
                     delay_out0 = 0, env0 = 0, delay_out1 = 0, env1 = 0\<rparr>"

definition warm_up_noise_dut :: "nat \<Rightarrow> dut_signals" where
  "warm_up_noise_dut n = \<lparr>sample_out = (if n \<le> 1024 then 30000 else 0),
                           delay_out0 = 0, env0 = 0, delay_out1 = 0, env1 = 0\<rparr>"

section \<open>The envelope generators of the module under test\<close>

text \<open>
  Modelled from the spec: the module under test is not part of the source; the test only
  prints its \<^verbatim>\<open>env0\<close> and \<^verbatim>\<open>env1\<close>. The spec describes two envelope generators,
  each a phase value cycling over one grain period and mapped to a gain by a triangular
  window (least at the wrap, greatest at mid-grain); the two phases are offset by half a
  grain period at initialisation and advance every tick by the phase increment that the
  pitch controller gives to both engines, which may change from tick to tick. Gains are
  unsigned integers; a grain period is \<open>2 * half\<close> phase units and full gain is \<open>half\<close>.
\<close>

definition triangle_gain :: "nat \<Rightarrow> nat \<Rightarrow> nat" where
  "triangle_gain half p = (if p \<le> half then p else 2 * half - p)"

record envelopes =
  phase0 :: nat
  phase1 :: nat

definition envelope_reset :: "nat \<Rightarrow> envelopes" where
  "envelope_reset half = \<lparr>phase0 = 0, phase1 = half\<rparr>"

definition envelope_tick :: "nat \<Rightarrow> nat \<Rightarrow> envelopes \<Rightarrow> envelopes" where
  "envelope_tick half inc e =
     \<lparr>phase0 = (phase0 e + inc) mod (2 * half), phase1 = (phase1 e + inc) mod (2 * half)\<rparr>"

fun envelope_at :: "nat \<Rightarrow> (nat \<Rightarrow> nat) \<Rightarrow> nat \<Rightarrow> envelopes" where
  "envelope_at half incs 0 = envelope_reset half"
| "envelope_at half incs (Suc t) = envelope_tick half (incs t) (envelope_at half incs t)"

definition env0_at :: "nat \<Rightarrow> (nat \<Rightarrow> nat) \<Rightarrow> nat \<Rightarrow> nat" where
  "env0_at half incs t = triangle_gain half (phase0 (envelope_at half incs t))"

definition env1_at :: "nat \<Rightarrow> (nat \<Rightarrow> nat) \<Rightarrow> nat \<Rightarrow> nat" where
  "env1_at half incs t = triangle_gain half (phase1 (envelope_at half incs t))"

section \<open>The loop, one iteration at a time\<close>

lemma warm_up_edges: "edges (warm_up n s) = edges s + n"
  by (induction n arbitrary: s) (simp_all add: rising_edge_def)

lemma warm_up_sample_in: "sample_in (warm_up n s) = sample_in s"
  by (induction n arbitrary: s) (simp_all add: rising_edge_def)

lemma warm_up_pitch: "pitch (warm_up n s) = pitch s"
  by (induction n arbitrary: s) (simp_all add: rising_edge_def)

lemma stimulus_append:
  "stimulus dut (xs @ ys) s =
     (case stimulus dut xs s of Inl e \<Rightarrow> Inl e | Inr s' \<Rightarrow> stimulus dut ys s')"
  by (induction xs arbitrary: s) (simp_all split: sum.splits)

lemma run_stimulus_0: "run_stimulus dut 0 = Inr stimulus_start"
  by (simp add: run_stimulus_def)

lemma run_stimulus_Suc:
  "run_stimulus dut (Suc n) =
     (case run_stimulus dut n of Inl e \<Rightarrow> Inl e | Inr s \<Rightarrow> body dut n s)"
  by (simp add: run_stimulus_def stimulus_append split: sum.splits)

lemma stimulus_start_fields:
  "edges stimulus_start = 1024" "pitch stimulus_start = 20000" "sample_in stimulus_start = 0"
  "data_out_last stimulus_start = None" "breaknext stimulus_start = False"
  by (simp_all add: stimulus_start_def warm_up_edges warm_up_pitch warm_up_sample_in
        start_of_test_def)

lemma body_Inr:
  assumes "body dut i s = Inr s'"
  shows "edges s' = Suc (edges s)"
    and "pitch s' = pitch s"
    and "sample_in s' = bits_from_signed (data_in i) sample_width"
    and "data_out_last s' = Some (signed_from_bits (sample_out (dut (Suc (edges s)))) sample_width)"
    and "\<not> (breaknext s \<and> data_out_last s \<noteq> None)"
    and "breaknext s' \<longleftrightarrow>
           (case data_out_last s of None \<Rightarrow> breaknext s
            | Some prev \<Rightarrow> \<bar>signed_from_bits (sample_out (dut (Suc (edges s)))) sample_width - prev\<bar> > 50)"
  using assms
  by (auto simp: body_def rising_edge_def Let_def split: option.splits if_splits)

lemma body_Inl:
  assumes "body dut i s = Inl (e, s')"
  shows "e = AssertionError"
    and "edges s' = Suc (edges s)"
    and "pitch s' = pitch s"
    and "sample_in s' = bits_from_signed (data_in i) sample_width"
    and "breaknext s" and "data_out_last s \<noteq> None"
  using assms
  by (auto simp: body_def rising_edge_def Let_def split: option.splits if_splits)

lemma body_isl:
  "isl (body dut i s) \<longleftrightarrow> breaknext s \<and> data_out_last s \<noteq> None"
  by (auto simp: body_def rising_edge_def Let_def split: option.splits if_splits)

lemma run_invariant:
  assumes "run_stimulus dut n = Inr s"
  shows "edges s = 1024 + n \<and> pitch s = 20000
       \<and> sample_in s = (if n = 0 then 0 else bits_from_signed (data_in (n - 1)) sample_width)
       \<and> data_out_last s = (if n = 0 then None else Some (data_out_at dut (n - 1)))
       \<and> (breaknext s \<longleftrightarrow> 2 \<le> n \<and> discontinuity dut (n - 1))"
  using assms
proof (induction n arbitrary: s)
  case 0
  then show ?case
    by (auto simp: run_stimulus_0 stimulus_start_fields)
next
  case (Suc n)
  from Suc.prems obtain s0 where r: "run_stimulus dut n = Inr s0" and b: "body dut n s0 = Inr s"
    by (auto simp: run_stimulus_Suc split: sum.splits)
  note ih = Suc.IH [OF r] and step = body_Inr [OF b]
  have "edges s = 1024 + Suc n" "pitch s = 20000"
    using ih step(1,2) by simp_all
  moreover have "sample_in s = bits_from_signed (data_in n) sample_width"
    using step(3) .
  moreover have "data_out_last s = Some (data_out_at dut n)"
    using ih step(4) by (simp add: data_out_at_def)
  moreover have "breaknext s \<longleftrightarrow> 2 \<le> Suc n \<and> discontinuity dut n"
    using ih step(5,6) by (cases n) (auto simp: data_out_at_def discontinuity_def)
  ultimately show ?case by simp
qed

lemma run_isl_Suc:
  "isl (run_stimulus dut (Suc n)) \<longleftrightarrow>
     isl (run_stimulus dut n) \<or> (2 \<le> n \<and> discontinuity dut (n - 1))"
proof (cases "run_stimulus dut n")
  case (Inl x)
  then show ?thesis by (simp add: run_stimulus_Suc)
next
  case (Inr s)
  then show ?thesis
    using run_invariant [OF Inr] by (auto simp: run_stimulus_Suc body_isl)
qed

lemma run_isl_iff:
  "isl (run_stimulus dut n) \<longleftrightarrow> (\<exists>j. 1 \<le> j \<and> j + 1 < n \<and> discontinuity dut j)"
proof (induction n)
  case 0
  then show ?case by (simp add: run_stimulus_0)
next
  case (Suc n)
  have "(\<exists>j. 1 \<le> j \<and> j + 1 < Suc n \<and> discontinuity dut j) \<longleftrightarrow>
        (\<exists>j. 1 \<le> j \<and> j + 1 < n \<and> discontinuity dut j) \<or> (2 \<le> n \<and> discontinuity dut (n - 1))"
    (is "?L \<longleftrightarrow> ?A \<or> ?B")
  proof
    assume ?L
    then obtain j where j: "1 \<le> j" "j + 1 < Suc n" "discontinuity dut j" by blast
    show "?A \<or> ?B"
    proof (cases "j + 1 < n")
      case True
      with j show ?thesis by blast
    next
      case False
      with j have "j = n - 1" "2 \<le> n" by simp_all
      with j show ?thesis by simp
    qed
  next
    assume "?A \<or> ?B"
    then show ?L
    proof
      assume ?A
      then show ?L by (meson less_SucI)
    next
      assume ?B
      then have "1 \<le> n - 1 \<and> (n - 1) + 1 < Suc n \<and> discontinuity dut (n - 1)" by auto
      then show ?L by blast
    qed
  qed
  with Suc.IH show ?case by (simp only: run_isl_Suc)
qed




lemma run_final_pitch: "pitch (final_state (run_stimulus dut n)) = 20000"
proof (induction n)
  case 0
  then show ?case by (simp add: run_stimulus_0 stimulus_start_fields)
next
  case (Suc n)
  show ?case
  proof (cases "run_stimulus dut n")
    case (Inl x)
    with Suc show ?thesis by (simp add: run_stimulus_Suc)
  next
    case (Inr s)
    show ?thesis
    proof (cases "body dut n s")
      case (Inl x)
      then obtain e s' where "x = (e, s')" by (cases x)
      with Inl Inr Suc body_Inl(3) [of dut n s e s'] show ?thesis
        by (simp add: run_stimulus_Suc)
    next
      case b: (Inr s')
      with Inr Suc body_Inr(2) [OF b] show ?thesis
        by (simp add: run_stimulus_Suc)
    qed
  qed
qed

lemma body_final:
  "sample_in (final_state (body dut i s)) = bits_from_signed (data_in i) sample_width"
  "edges (final_state (body dut i s)) = Suc (edges s)"
  "PrintIn i (data_in i) \<in> set (stdout (final_state (body dut i s)))"
  "PrintOut i (signed_from_bits (sample_out (dut (Suc (edges s)))) sample_width)
     \<in> set (stdout (final_state (body dut i s)))"
  by (simp_all add: body_def rising_edge_def Let_def split: option.splits)

lemma body_cong:
  "dut (Suc (edges s)) = dut' (Suc (edges s)) \<Longrightarrow> body dut i s = body dut' i s"
  by (simp add: body_def rising_edge_def Let_def split: option.splits)

lemma run_stimulus_cong:
  assumes "\<forall>n>1024. dut n = dut' n"
  shows "run_stimulus dut n = run_stimulus dut' n"
proof (induction n)
  case 0
  show ?case by (simp add: run_stimulus_0)
next
  case (Suc n)
  show ?case
  proof (cases "run_stimulus dut' n")
    case (Inl x)
    with Suc show ?thesis by (simp add: run_stimulus_Suc)
  next
    case (Inr s)
    from run_invariant [OF Inr] have "edges s = 1024 + n" by simp
    with assms have "body dut n s = body dut' n s"
      by (intro body_cong) simp
    with Suc Inr show ?thesis by (simp add: run_stimulus_Suc)
  qed
qed

lemma warm_up_stdout: "stdout (warm_up n s) = stdout s"
  by (induction n arbitrary: s) (simp_all add: rising_edge_def)

lemma warm_up_locals:
  "data_out_last (warm_up n s) = data_out_last s" "breaknext (warm_up n s) = breaknext s"
  by (induction n arbitrary: s) (simp_all add: rising_edge_def)


section \<open>Concrete output streams\<close>

lemma signed_from_bits_small:
  "0 \<le> b \<Longrightarrow> b < 32768 \<Longrightarrow> signed_from_bits b sample_width = b"
  by (simp add: signed_from_bits_def sample_width_def)

lemma data_out_at_quiet: "data_out_at quiet_dut i = 0"
  by (simp add: data_out_at_def quiet_dut_def signed_from_bits_small)

lemma discontinuity_quiet: "\<not> discontinuity quiet_dut i"
  by (simp add: discontinuity_def data_out_at_quiet)

lemma data_out_at_step:
  "0 \<le> h \<Longrightarrow> h < 32768 \<Longrightarrow> data_out_at (step_dut k h) i = (if i < k then 0 else h)"
  by (simp add: data_out_at_def step_dut_def signed_from_bits_small)

lemma discontinuity_step:
  assumes "50 < h" and "h < 32768" and "1 \<le> k"
  shows "discontinuity (step_dut k h) j \<longleftrightarrow> j = k"
proof -
  have "0 \<le> h" using assms by simp
  then show ?thesis
    using assms by (auto simp: discontinuity_def data_out_at_step)
qed

lemma test_raises_iff:
  "isl (test_transpose_00 dut) \<longleftrightarrow> (\<exists>j. 1 \<le> j \<and> j \<le> 2046 \<and> discontinuity dut j)"
proof -
  have "\<And>j::nat. j + 1 < 2048 \<longleftrightarrow> j \<le> 2046" by auto
  then show ?thesis by (simp add: test_transpose_00_def run_isl_iff)
qed

lemma discontinuity_step_0:
  "0 \<le> h \<Longrightarrow> h < 32768 \<Longrightarrow> \<not> discontinuity (step_dut 0 h) j"
  by (simp add: discontinuity_def data_out_at_step)

section \<open>Encoding, decoding and the sine stimulus\<close>










section \<open>The envelope model\<close>

lemma triangle_gain_complement:
  assumes "p < 2 * half"
  shows "triangle_gain half p + triangle_gain half ((p + half) mod (2 * half)) = half"
proof (cases "p < half")
  case True
  then have "(p + half) mod (2 * half) = p + half" by simp
  with True show ?thesis by (simp add: triangle_gain_def)
next
  case False
  with assms have "(p + half) mod (2 * half) = p - half"
    by (simp add: mod_if)
  with False assms show ?thesis by (auto simp: triangle_gain_def)
qed

lemma envelope_offset:
  assumes "0 < half"
  shows "phase0 (envelope_at half incs t) < 2 * half \<and>
         phase1 (envelope_at half incs t) = (phase0 (envelope_at half incs t) + half) mod (2 * half)"
proof (induction t)
  case 0
  with assms show ?case by (simp add: envelope_reset_def)
next
  case (Suc t)
  let ?p = "phase0 (envelope_at half incs t)"
  have "((?p + half) mod (2 * half) + incs t) mod (2 * half) =
        ((?p + incs t) mod (2 * half) + half) mod (2 * half)"
    by (simp add: mod_simps ac_simps)
  with Suc assms show ?case by (simp add: envelope_tick_def)
qed

section \<open>The first output sample\<close>

text \<open>
  C10. The output sample read at the first stimulus iteration is never checked: whatever
  the module drives, no previous sample is recorded when the loop starts, the iteration
  ends without raising and without setting the flag, and only records the sample.
\<close>

theorem first_output_exempt:
  "data_out_last stimulus_start = None \<and>
   (\<exists>s. run_stimulus dut 1 = Inr s \<and> \<not> breaknext s \<and>
        data_out_last s = Some (data_out_at dut 0))"
proof -
  have "\<not> isl (run_stimulus dut (Suc 0))"
    by (simp add: run_isl_Suc run_stimulus_0)
  then obtain s where s: "run_stimulus dut (Suc 0) = Inr s"
    by (cases "run_stimulus dut (Suc 0)") simp_all
  from run_invariant [OF s] have "\<not> breaknext s" "data_out_last s = Some (data_out_at dut 0)"
    by simp_all
  with s show ?thesis
    by (simp add: stimulus_start_fields)
qed

section \<open>A jump at the last iteration\<close>

text \<open>
  C9. Whatever the module drives, if the difference between consecutive decoded output
  samples exceeds 50 for the first time at the final stimulus iteration (index 2047), the
  test ends without raising: the flag is set in that iteration and the loop is over before
  the assertion that reads it.
\<close>

theorem last_discontinuity_unreported:
  assumes "\<forall>j. 1 \<le> j \<and> j < 2047 \<longrightarrow> \<not> discontinuity dut j"
    and "discontinuity dut 2047"
  shows "\<exists>s. test_transpose_00 dut = Inr s \<and> breaknext s"
proof -
  have "\<not> isl (test_transpose_00 dut)"
    using assms(1) by (auto simp: test_raises_iff)
  then obtain s where s: "run_stimulus dut 2048 = Inr s"
    by (cases "run_stimulus dut 2048") (simp_all add: test_transpose_00_def)
  from run_invariant [OF s] assms(2) have "breaknext s" by simp
  with s show ?thesis by (simp add: test_transpose_00_def)
qed

theorem last_discontinuity_unreported_witness:
  "discontinuity (step_dut 2047 51) 2047 \<and>
   (\<exists>s. test_transpose_00 (step_dut 2047 51) = Inr s \<and> breaknext s)"
proof -
  have a: "\<forall>j. 1 \<le> j \<and> j < 2047 \<longrightarrow> \<not> discontinuity (step_dut 2047 51) j"
    by (simp add: discontinuity_step)
  have b: "discontinuity (step_dut 2047 51) 2047"
    by (simp add: discontinuity_step)
  from last_discontinuity_unreported [OF a b] b show ?thesis by simp
qed

text \<open>
  C1. A jump of more than 50 between consecutive decoded output samples sets the flag,
  and a set flag should make the test fail. On the stream that steps from 0 to 100 at
  iteration 2047 the jump is flagged, yet the test passes.
\<close>

theorem flagged_at_last_iteration_passes:
  "discontinuity (step_dut 2047 100) 2047 \<and>
   \<not> isl (test_transpose_00 (step_dut 2047 100)) \<and>
   breaknext (final_state (test_transpose_00 (step_dut 2047 100)))"
proof -
  have d: "discontinuity (step_dut 2047 100) 2047"
    by (simp add: discontinuity_step)
  have p: "\<not> isl (test_transpose_00 (step_dut 2047 100))"
    by (simp add: test_raises_iff discontinuity_step)
  then obtain s where s: "run_stimulus (step_dut 2047 100) 2048 = Inr s"
    by (cases "run_stimulus (step_dut 2047 100) 2048") (simp_all add: test_transpose_00_def)
  from run_invariant [OF s] d have "breaknext s" by simp
  with s d p show ?thesis by (simp add: test_transpose_00_def)
qed

section \<open>When the test aborts\<close>




section \<open>Which indices are checked\<close>

text \<open>
  C4, as stated, fails: the comparison is not confined to indices from 1024 on. On the
  stream that steps from 0 to 100 at stimulus iteration 1 no later sample jumps, yet the
  test raises. Nor is the sample of the 1025th tick (stimulus iteration 0) compared with
  the one before it: on the stream that steps from 0 to 100 between the last warm-up edge
  and the first stimulus edge the test passes.
\<close>

theorem check_before_1024_counterexample:
  "isl (test_transpose_00 (step_dut 1 100)) \<and>
   \<not> (\<exists>i\<ge>1024. discontinuity (step_dut 1 100) i) \<and>
   sample_out (step_dut 0 100 1024) = 0 \<and> data_out_at (step_dut 0 100) 0 = 100 \<and>
   \<not> isl (test_transpose_00 (step_dut 0 100))"
  by (simp add: test_raises_iff discontinuity_step discontinuity_step_0 data_out_at_step)
    (simp add: step_dut_def)

text \<open>
  C4, amended. The comparison of consecutive decoded output samples covers the stimulus
  indices from 1 on, those below 1024 included, and never index 0: a difference above 50
  at any index from 1 to 2046 makes the test raise, without any such difference at the
  indices 1 to 2047 the test passes, and the first stimulus iteration never raises.
\<close>

theorem check_from_second_iteration:
  "((\<exists>i. 1 \<le> i \<and> i \<le> 2046 \<and> discontinuity dut i) \<longrightarrow> isl (test_transpose_00 dut)) \<and>
   ((\<forall>i. 1 \<le> i \<and> i \<le> 2047 \<longrightarrow> \<not> discontinuity dut i) \<longrightarrow> \<not> isl (test_transpose_00 dut)) \<and>
   \<not> isl (run_stimulus dut 1)"
proof -
  have "\<not> isl (run_stimulus dut 1)"
    by (simp add: run_isl_iff)
  moreover have "(\<forall>i. 1 \<le> i \<and> i \<le> 2047 \<longrightarrow> \<not> discontinuity dut i) \<longrightarrow> \<not> isl (test_transpose_00 dut)"
    by (auto simp: test_raises_iff)
  ultimately show ?thesis
    by (simp add: test_raises_iff)
qed

theorem check_from_second_iteration_witness:
  "isl (test_transpose_00 (step_dut 1 100)) \<and> \<not> isl (test_transpose_00 quiet_dut)"
proof -
  have a: "\<exists>i. 1 \<le> i \<and> i \<le> 2046 \<and> discontinuity (step_dut 1 100) i"
    by (simp add: discontinuity_step)
  have b: "\<forall>i. 1 \<le> i \<and> i \<le> 2047 \<longrightarrow> \<not> discontinuity quiet_dut i"
    by (simp add: discontinuity_quiet)
  from check_from_second_iteration [of "step_dut 1 100"] check_from_second_iteration [of quiet_dut] a b
  show ?thesis by blast
qed

section \<open>The warm-up and the pitch\<close>

text \<open>
  C5. Before the stimulus the test drives \<^verbatim>\<open>sample_in\<close> to zero and awaits exactly 1024
  rising edges of the sample clock, with \<^verbatim>\<open>sample_in\<close> still zero and nothing printed at
  each of them; the first stimulus iteration awaits edge 1025. Nothing the module drives
  up to edge 1024 is read: two output streams that agree from edge 1025 on give the same
  result.
\<close>

theorem warm_up_zero_fill:
  "sample_in start_of_test = 0 \<and> edges start_of_test = 0 \<and>
   sample_in (warm_up k start_of_test) = 0 \<and> stdout (warm_up k start_of_test) = [] \<and>
   edges (warm_up 1024 start_of_test) = 1024 \<and>
   edges stimulus_start = 1024 \<and>
   edges (final_state (run_stimulus dut 1)) = 1025 \<and>
   ((\<forall>n>1024. dut n = dut' n) \<longrightarrow> test_transpose_00 dut = test_transpose_00 dut')"
proof -
  have "edges (final_state (run_stimulus dut (Suc 0))) = 1025"
    by (simp add: run_stimulus_Suc run_stimulus_0 body_final stimulus_start_fields)
  then show ?thesis
    by (simp add: warm_up_sample_in warm_up_stdout warm_up_edges stimulus_start_fields
        start_of_test_def test_transpose_00_def run_stimulus_cong)
qed

theorem warm_up_zero_fill_witness:
  "warm_up_noise_dut 1024 \<noteq> quiet_dut 1024 \<and>
   test_transpose_00 warm_up_noise_dut = test_transpose_00 quiet_dut"
proof -
  have "\<forall>n>1024. warm_up_noise_dut n = quiet_dut n"
    by (simp add: warm_up_noise_dut_def quiet_dut_def)
  with warm_up_zero_fill [of 0 warm_up_noise_dut quiet_dut]
  show ?thesis by (simp add: warm_up_noise_dut_def quiet_dut_def)
qed

text \<open>
  C8. The pitch input is assigned \<open>5000 * 4 = 20000\<close> at the start and never again: it
  holds that value after any number of warm-up edges, when the stimulus loop starts, and
  in the state in which any number of stimulus iterations end, raised or not.
\<close>

theorem pitch_never_modified:
  "pitch start_of_test = 5000 * 4 \<and>
   pitch (warm_up k start_of_test) = 20000 \<and>
   pitch stimulus_start = 20000 \<and>
   pitch (final_state (run_stimulus dut n)) = 20000"
  by (simp add: run_final_pitch stimulus_start_fields warm_up_pitch start_of_test_def)

section \<open>Samples\<close>






section \<open>The complementary crossfade\<close>

text \<open>
  C6. At every tick the two envelope gains sum to the same value, the full gain \<open>half\<close>,
  whatever the phase increments are.
\<close>

theorem envelopes_complementary:
  "env0_at half incs t + env1_at half incs t = half"
proof (cases "0 < half")
  case True
  from envelope_offset [OF True, of incs t] show ?thesis
    by (simp add: env0_at_def env1_at_def triangle_gain_complement)
next
  case False
  then show ?thesis by (simp add: env0_at_def env1_at_def triangle_gain_def)
qed

end
